theory Spec2Isabelle
  imports Main "HOL-Library.Sublist"
begin

section \<open>Data model\<close>

text \<open>
  Modelled from the spec: the payload types of \<^verbatim>\<open>../types\<close> (AnalysisResult,
  ProgressStep, VerificationUpdate and the \<^verbatim>\<open>data\<close> field of an event) are not part of
  the sources. The spec (section 6) calls every payload a JSON object, so one datatype of
  JSON values stands for all of them.
\<close>

datatype json =
    JNull
  | JNum int
  | JStr string
  | JArr "json list"
  | JObj "(string \<times> json) list"

text \<open>
  Modelled from the spec: the event type \<^verbatim>\<open>AnalysisLog\<close> of \<^verbatim>\<open>../types\<close> is not part
  of the sources. Section 3 of the spec gives it as a tagged union with seven kinds; the
  fields are the ones the component reads (\<^verbatim>\<open>message\<close>, \<^verbatim>\<open>step\<close>, \<^verbatim>\<open>status\<close>,
  \<^verbatim>\<open>data\<close>). In \<open>Progress step status\<close> an absent \<^verbatim>\<open>step\<close> is the empty string, the
  other falsy value of the test \<^verbatim>\<open>lastLog.step\<close>.
\<close>

datatype AnalysisLog =
    Log string
  | Progress string string
  | ClusteringResult json
  | VerificationUpdate json
  | CompleteEvent
  | ErrorEvent string
  | JsonResult json

datatype step_status = Pending | Active | Complete | Error

record PipelineStep =
  step_id :: string
  label :: string
  status :: step_status
  resultData :: "json option"

definition INITIAL_PIPELINE :: "PipelineStep list" where
  "INITIAL_PIPELINE =
    [ \<lparr>step_id = ''read_sequences'', label = ''Reading Sequences...'',
        status = Pending, resultData = None\<rparr>,
      \<lparr>step_id = ''generate_embeddings'', label = ''Generating AI Embeddings...'',
        status = Pending, resultData = None\<rparr>,
      \<lparr>step_id = ''umap_hdbscan'', label = ''Running UMAP & HDBSCAN...'',
        status = Pending, resultData = None\<rparr>,
      \<lparr>step_id = ''clustering_result'', label = ''Clustering Complete'',
        status = Pending, resultData = None\<rparr>,
      \<lparr>step_id = ''ncbi_verification'', label = ''Starting NCBI Verification (Slow)...'',
        status = Pending, resultData = None\<rparr>,
      \<lparr>step_id = ''analysis_complete'', label = ''Analysis Complete'',
        status = Pending, resultData = None\<rparr> ]"

section \<open>Strings\<close>

text \<open>
  \<^verbatim>\<open>String.prototype.toLowerCase\<close> and \<^verbatim>\<open>String.prototype.includes\<close> on byte strings.
  Only the letters A to Z are folded; the needles the reducer searches for are ASCII and
  contain neither \<^verbatim>\<open>k\<close> nor a final \<^verbatim>\<open>i\<close>, the two letters a non-ASCII character can
  lower-case to.
\<close>

definition toLowerChar :: "char \<Rightarrow> char" where
  "toLowerChar c =
     (if 65 \<le> (of_char c :: nat) \<and> (of_char c :: nat) \<le> 90
      then char_of ((of_char c :: nat) + 32) else c)"

definition toLowerCase :: "string \<Rightarrow> string" where
  "toLowerCase s = map toLowerChar s"

fun startsWith :: "string \<Rightarrow> string \<Rightarrow> bool" where
  "startsWith s [] = True"
| "startsWith [] (c # cs) = False"
| "startsWith (x # xs) (c # cs) = (x = c \<and> startsWith xs cs)"

fun str_includes :: "string \<Rightarrow> string \<Rightarrow> bool" where
  "str_includes [] sub = (sub = [])"
| "str_includes (x # xs) sub = (startsWith (x # xs) sub \<or> str_includes xs sub)"

section \<open>Pipeline state reducer\<close>

text \<open>
  \<^verbatim>\<open>newSteps.findIndex(s => s.id === id)\<close>: the first index whose step has the id,
  \<open>None\<close> for the JavaScript result \<open>-1\<close>.
\<close>

fun findIndexById :: "PipelineStep list \<Rightarrow> string \<Rightarrow> nat option" where
  "findIndexById [] ident = None"
| "findIndexById (s # ss) ident =
     (if step_id s = ident then Some 0
      else map_option Suc (findIndexById ss ident))"

text \<open>
  The state updater passed to \<^verbatim>\<open>setPipelineSteps\<close> works on a copy \<^verbatim>\<open>newSteps\<close> of the
  previous array and a flag \<^verbatim>\<open>changed\<close>; both are variables of the closure that
  \<^verbatim>\<open>handleCompletion\<close> and \<^verbatim>\<open>activateStep\<close> assign to.
\<close>

record draft =
  newSteps :: "PipelineStep list"
  changed :: bool

definition handleCompletion :: "string \<Rightarrow> json option \<Rightarrow> draft \<Rightarrow> draft" where
  "handleCompletion stepId resultData' d =
     (case findIndexById (newSteps d) stepId of
        None \<Rightarrow> d
      | Some index \<Rightarrow>
          if status (newSteps d ! index) \<noteq> Complete then
            (let s1 = (newSteps d)[index :=
                        (newSteps d ! index)\<lparr>status := Complete, resultData := resultData'\<rparr>];
                 nextIndex = index + 1;
                 s2 = (if nextIndex < length s1 \<and> status (s1 ! nextIndex) = Pending
                       then s1[nextIndex := (s1 ! nextIndex)\<lparr>status := Active\<rparr>]
                       else s1)
             in \<lparr>newSteps = s2, changed = True\<rparr>)
          else d)"

definition activateStep :: "string \<Rightarrow> draft \<Rightarrow> draft" where
  "activateStep stepId d =
     (case findIndexById (newSteps d) stepId of
        None \<Rightarrow> d
      | Some index \<Rightarrow>
          if status (newSteps d ! index) = Pending then
            \<lparr>newSteps = (newSteps d)[index := (newSteps d ! index)\<lparr>status := Active\<rparr>],
             changed = True\<rparr>
          else d)"

text \<open>
  Sections A to E of the updater. The tests on \<^verbatim>\<open>lastLog.type\<close> exclude each other, so
  the sequence of \<^verbatim>\<open>if\<close> statements is a case distinction on the kind of the event.
  An \<^verbatim>\<open>error\<close> or \<^verbatim>\<open>json_result\<close> event matches none of the sections. The call
  \<^verbatim>\<open>setLastVerificationUpdate(lastLog)\<close> of section E writes a separate piece of component
  state that the step array never reads.
\<close>

fun applyEvent :: "AnalysisLog \<Rightarrow> draft \<Rightarrow> draft" where
  "applyEvent (Log msg) d =
     (let message = toLowerCase msg in
      if str_includes message ''reading sequences'' then
        activateStep ''read_sequences'' d
      else if str_includes message ''found'' \<and> str_includes message ''sequences'' then
        handleCompletion ''read_sequences'' None d
      else if str_includes message ''generating'' \<and> str_includes message ''embeddings'' then
        activateStep ''generate_embeddings'' d
      else if str_includes message ''running umap'' then
        activateStep ''umap_hdbscan'' (handleCompletion ''generate_embeddings'' None d)
      else if str_includes message ''clustering complete'' then
        handleCompletion ''umap_hdbscan'' None d
      else if str_includes message ''ncbi verification'' then
        activateStep ''ncbi_verification'' d
      else d)"
| "applyEvent (Progress step stat) d =
     (if stat = ''complete'' \<and> step \<noteq> [] then handleCompletion step None d else d)"
| "applyEvent (ClusteringResult dat) d =
     handleCompletion ''clustering_result'' (Some dat) (handleCompletion ''umap_hdbscan'' None d)"
| "applyEvent CompleteEvent d =
     handleCompletion ''analysis_complete'' None (handleCompletion ''ncbi_verification'' None d)"
| "applyEvent (VerificationUpdate dat) d = activateStep ''ncbi_verification'' d"
| "applyEvent (ErrorEvent msg) d = d"
| "applyEvent (JsonResult dat) d = d"

text \<open>
  The updater itself: \<^verbatim>\<open>prevSteps => { const newSteps = [...prevSteps]; let changed = false;
  ...; return changed ? newSteps : prevSteps; }\<close>.
\<close>

definition stepsUpdater :: "AnalysisLog \<Rightarrow> PipelineStep list \<Rightarrow> PipelineStep list" where
  "stepsUpdater lastLog prevSteps =
     (let d = applyEvent lastLog \<lparr>newSteps = prevSteps, changed = False\<rparr>
      in if changed d then newSteps d else prevSteps)"

text \<open>
  The effect of the component runs after every change of \<^verbatim>\<open>logs\<close>: an empty log
  resets the array to \<^verbatim>\<open>INITIAL_PIPELINE\<close>, any other log applies the updater for its last
  event to the array held so far.
\<close>

definition logsEffect :: "AnalysisLog list \<Rightarrow> PipelineStep list \<Rightarrow> PipelineStep list" where
  "logsEffect logs prevSteps =
     (if logs = [] then INITIAL_PIPELINE else stepsUpdater (last logs) prevSteps)"

text \<open>
  The array the component holds after a sequence of renders. The state starts as
  \<^verbatim>\<open>useState(INITIAL_PIPELINE)\<close>; the effect depends on \<^verbatim>\<open>[logs]\<close>, so it runs after the
  mount and after every render in which the prop \<^verbatim>\<open>logs\<close> has changed, each time on the
  array left by the run before. The argument lists the values of \<^verbatim>\<open>logs\<close> at these runs,
  in order. The array is a function of this sequence and not of the log alone: a run reads
  only \<^verbatim>\<open>logs[logs.length - 1]\<close>.
\<close>

definition componentSteps :: "AnalysisLog list list \<Rightarrow> PipelineStep list" where
  "componentSteps renders =
     foldl (\<lambda>pipelineSteps logs. logsEffect logs pipelineSteps) INITIAL_PIPELINE renders"

section \<open>Sample registry (useStore.ts)\<close>

text \<open>
  Modelled from the spec: the type \<^verbatim>\<open>Sample\<close> of \<^verbatim>\<open>../types\<close> is not part of the
  sources. Its fields are those of the object literal the upload screen passes to
  \<^verbatim>\<open>addSample\<close> and of the store's updates; the four values of \<^verbatim>\<open>status\<close> are those of
  section 3 of the spec. The field \<^verbatim>\<open>status\<close> is named \<open>sampleStatus\<close> here, since a
  pipeline step has a field of the same name.
\<close>

datatype sample_status = S_uploading | S_running | S_complete | S_error

record Sample =
  fileId :: string
  sampleId :: string
  sampleStatus :: sample_status
  fileName :: string
  uploadDate :: string
  logs :: "string list"
  progress :: "json list"
  verificationUpdates :: "json list"
  latestAnalysis :: "json option"

record AppState =
  samples :: "Sample list"

definition addSample :: "Sample \<Rightarrow> AppState \<Rightarrow> AppState" where
  "addSample sample state = state\<lparr>samples := samples state @ [sample]\<rparr>"

definition updateSampleStatus :: "string \<Rightarrow> sample_status \<Rightarrow> AppState \<Rightarrow> AppState" where
  "updateSampleStatus fid st state =
     state\<lparr>samples := map (\<lambda>s. if fileId s = fid then s\<lparr>sampleStatus := st\<rparr> else s)
                           (samples state)\<rparr>"

definition addSampleLog :: "string \<Rightarrow> string \<Rightarrow> AppState \<Rightarrow> AppState" where
  "addSampleLog fid lg state =
     state\<lparr>samples := map (\<lambda>s. if fileId s = fid then s\<lparr>logs := logs s @ [lg]\<rparr> else s)
                           (samples state)\<rparr>"

definition updateSampleProgress :: "string \<Rightarrow> json \<Rightarrow> AppState \<Rightarrow> AppState" where
  "updateSampleProgress fid pr state =
     state\<lparr>samples := map (\<lambda>s. if fileId s = fid then s\<lparr>progress := progress s @ [pr]\<rparr> else s)
                           (samples state)\<rparr>"

definition setSampleAnalysisResult :: "string \<Rightarrow> json \<Rightarrow> AppState \<Rightarrow> AppState" where
  "setSampleAnalysisResult fid res state =
     state\<lparr>samples := map (\<lambda>s. if fileId s = fid then s\<lparr>latestAnalysis := Some res\<rparr> else s)
                           (samples state)\<rparr>"

definition addSampleVerificationUpdate :: "string \<Rightarrow> json \<Rightarrow> AppState \<Rightarrow> AppState" where
  "addSampleVerificationUpdate fid upd state =
     state\<lparr>samples :=
       map (\<lambda>s. if fileId s = fid
                 then s\<lparr>verificationUpdates := verificationUpdates s @ [upd]\<rparr> else s)
           (samples state)\<rparr>"

definition getSample :: "string \<Rightarrow> AppState \<Rightarrow> Sample option" where
  "getSample fid state = find (\<lambda>s. fileId s = fid) (samples state)"

section \<open>Notions of the specification\<close>

text \<open>The number of steps of an array whose status is \<^verbatim>\<open>active\<close>.\<close>

definition activeCount :: "PipelineStep list \<Rightarrow> nat" where
  "activeCount steps = length (filter (\<lambda>s. status s = Active) steps)"

text \<open>
  A status \<open>b\<close> is no regression from \<open>a\<close>: it is \<open>a\<close> itself, or \<^verbatim>\<open>complete\<close>, or
  \<^verbatim>\<open>active\<close> after \<^verbatim>\<open>pending\<close>.
\<close>

definition advances :: "step_status \<Rightarrow> step_status \<Rightarrow> bool" where
  "advances a b = (b = a \<or> b = Complete \<or> (a = Pending \<and> b = Active))"

text \<open>
  The position of a job status on the path uploading, running, then complete or error.
\<close>

fun status_rank :: "sample_status \<Rightarrow> nat" where
  "status_rank S_uploading = 0"
| "status_rank S_running = 1"
| "status_rank S_complete = 2"
| "status_rank S_error = 2"

section \<open>Invariants used in the proofs\<close>

text \<open>How one step may differ between an array and a later one.\<close>

definition step_evolves :: "PipelineStep \<Rightarrow> PipelineStep \<Rightarrow> bool" where
  "step_evolves s t =
     (step_id t = step_id s \<and> label t = label s \<and> (status s = Complete \<longrightarrow> t = s) \<and>
      advances (status s) (status t))"

definition pipeline_ids :: "PipelineStep list \<Rightarrow> bool" where
  "pipeline_ids steps = (map step_id steps = map step_id INITIAL_PIPELINE)"

text \<open>
  The three steps that become active only behind a completed predecessor:
  \<^verbatim>\<open>umap_hdbscan\<close>, \<^verbatim>\<open>clustering_result\<close> and \<^verbatim>\<open>analysis_complete\<close>.
\<close>

definition cascade_inv :: "PipelineStep list \<Rightarrow> bool" where
  "cascade_inv steps =
     ((status (steps ! 2) = Active \<longrightarrow> status (steps ! 1) = Complete) \<and>
      (status (steps ! 3) = Active \<longrightarrow> status (steps ! 2) = Complete) \<and>
      (status (steps ! 5) = Active \<longrightarrow> status (steps ! 4) = Complete))"

definition reachable_inv :: "PipelineStep list \<Rightarrow> bool" where
  "reachable_inv steps = (pipeline_ids steps \<and> cascade_inv steps)"


text \<open>
  The three arrays reachable by rendering prefixes of the log of the two messages
  \<^verbatim>\<open>reading sequences\<close> and \<^verbatim>\<open>found 1000 sequences\<close>.
\<close>

definition scenario_state :: "PipelineStep list \<Rightarrow> bool" where
  "scenario_state steps =
     (steps = INITIAL_PIPELINE \<or>
      steps = stepsUpdater (Log ''reading sequences'') INITIAL_PIPELINE \<or>
      steps = stepsUpdater (Log ''found 1000 sequences'') INITIAL_PIPELINE)"

section \<open>Example inputs\<close>

definition scenarioPayload :: json where
  "scenarioPayload =
     JObj [(''total_reads'', JNum 500), (''total_clusters'', JNum 3),
           (''noise_percentage'', JNum 2), (''top_groups'', JArr [])]"

definition sampleA :: Sample where
  "sampleA = \<lparr>fileId = ''f1'', sampleId = ''s1'', sampleStatus = S_complete,
              fileName = ''a.fasta'', uploadDate = ''2024-01-01'', logs = [], progress = [],
              verificationUpdates = [], latestAnalysis = None\<rparr>"

definition sampleB :: Sample where
  "sampleB = \<lparr>fileId = ''f1'', sampleId = ''s2'', sampleStatus = S_uploading,
              fileName = ''b.fasta'', uploadDate = ''2024-01-02'', logs = [], progress = [],
              verificationUpdates = [], latestAnalysis = None\<rparr>"

definition sampleC :: Sample where
  "sampleC = \<lparr>fileId = ''f2'', sampleId = ''s3'', sampleStatus = S_running,
              fileName = ''c.fasta'', uploadDate = ''2024-01-03'', logs = [''started''],
              progress = [], verificationUpdates = [], latestAnalysis = None\<rparr>"

definition emptyStore :: AppState where
  "emptyStore = \<lparr>samples = []\<rparr>"

section \<open>Properties of the two array operations\<close>

lemma findIndexById_Some:
  "findIndexById ss ident = Some i \<Longrightarrow> i < length ss \<and> step_id (ss ! i) = ident"
  by (induction ss arbitrary: i) (auto split: if_splits)

lemma findIndexById_cong:
  "map step_id ss = map step_id ts \<Longrightarrow> findIndexById ss ident = findIndexById ts ident"
proof (induction ss arbitrary: ts)
  case Nil
  then show ?case by simp
next
  case (Cons s ss)
  then obtain t ts1 where ts: "ts = t # ts1" by (cases ts) simp_all
  with Cons.prems have "step_id s = step_id t" and "map step_id ss = map step_id ts1"
    by simp_all
  with Cons.IH [of ts1] show ?case by (simp add: ts)
qed

lemma findIndexById_initial:
  "findIndexById INITIAL_PIPELINE ''read_sequences'' = Some 0"
  "findIndexById INITIAL_PIPELINE ''generate_embeddings'' = Some 1"
  "findIndexById INITIAL_PIPELINE ''umap_hdbscan'' = Some 2"
  "findIndexById INITIAL_PIPELINE ''clustering_result'' = Some 3"
  "findIndexById INITIAL_PIPELINE ''ncbi_verification'' = Some 4"
  "findIndexById INITIAL_PIPELINE ''analysis_complete'' = Some 5"
  by (simp_all add: INITIAL_PIPELINE_def)

lemma handleCompletion_length [simp]:
  "length (newSteps (handleCompletion stepId rd d)) = length (newSteps d)"
  by (simp add: handleCompletion_def Let_def split: option.splits)

lemma activateStep_length [simp]:
  "length (newSteps (activateStep stepId d)) = length (newSteps d)"
  by (simp add: activateStep_def split: option.splits)

text \<open>Both operations, read off position by position.\<close>

lemma handleCompletion_nth:
  "newSteps (handleCompletion stepId rd d) ! j =
     (case findIndexById (newSteps d) stepId of
        None \<Rightarrow> newSteps d ! j
      | Some i \<Rightarrow>
          if status (newSteps d ! i) = Complete then newSteps d ! j
          else if j = i then (newSteps d ! i)\<lparr>status := Complete, resultData := rd\<rparr>
          else if j = Suc i \<and> j < length (newSteps d) \<and> status (newSteps d ! j) = Pending
               then (newSteps d ! j)\<lparr>status := Active\<rparr>
          else newSteps d ! j)"
  by (auto simp: handleCompletion_def Let_def nth_list_update
           dest: findIndexById_Some split: option.splits)

lemma activateStep_nth:
  "newSteps (activateStep stepId d) ! j =
     (case findIndexById (newSteps d) stepId of
        None \<Rightarrow> newSteps d ! j
      | Some i \<Rightarrow>
          if j = i \<and> status (newSteps d ! i) = Pending
          then (newSteps d ! i)\<lparr>status := Active\<rparr>
          else newSteps d ! j)"
  by (auto simp: activateStep_def nth_list_update
           dest: findIndexById_Some split: option.splits)

lemma handleCompletion_completes:
  "findIndexById (newSteps d) stepId = Some i \<Longrightarrow>
   status (newSteps (handleCompletion stepId rd d) ! i) = Complete"
  by (simp add: handleCompletion_nth)

text \<open>
  The flag \<^verbatim>\<open>changed\<close> is set by every assignment to \<^verbatim>\<open>newSteps\<close>, so the updater
  returns the contents of \<^verbatim>\<open>newSteps\<close> in both branches of its last line.
\<close>

lemma handleCompletion_changed:
  "changed d \<or> newSteps d = prev \<Longrightarrow>
   changed (handleCompletion stepId rd d) \<or> newSteps (handleCompletion stepId rd d) = prev"
  by (auto simp: handleCompletion_def Let_def split: option.splits)

lemma activateStep_changed:
  "changed d \<or> newSteps d = prev \<Longrightarrow>
   changed (activateStep stepId d) \<or> newSteps (activateStep stepId d) = prev"
  by (auto simp: activateStep_def split: option.splits)

lemma applyEvent_changed:
  "changed d \<or> newSteps d = prev \<Longrightarrow>
   changed (applyEvent ev d) \<or> newSteps (applyEvent ev d) = prev"
  by (cases ev) (simp_all add: Let_def handleCompletion_changed activateStep_changed)

lemma stepsUpdater_eq:
  "stepsUpdater ev prev = newSteps (applyEvent ev \<lparr>newSteps = prev, changed = False\<rparr>)"
  using applyEvent_changed [of "\<lparr>newSteps = prev, changed = False\<rparr>" prev ev]
  by (auto simp: stepsUpdater_def Let_def)

section \<open>Every step only moves forward\<close>

lemma step_evolves_refl: "step_evolves s s"
  by (simp add: step_evolves_def advances_def)

lemma step_evolves_trans: "step_evolves s t \<Longrightarrow> step_evolves t u \<Longrightarrow> step_evolves s u"
  by (auto simp: step_evolves_def advances_def)

lemma evolves_refl: "list_all2 step_evolves xs xs"
  by (simp add: list_all2_refl step_evolves_refl)

lemma evolves_trans:
  "list_all2 step_evolves xs ys \<Longrightarrow> list_all2 step_evolves ys zs \<Longrightarrow>
   list_all2 step_evolves xs zs"
  by (rule list_all2_trans [where ?P1.0 = step_evolves and ?P2.0 = step_evolves])
     (auto intro: step_evolves_trans)

lemma evolves_ids:
  "list_all2 step_evolves ss ts \<Longrightarrow> map step_id ts = map step_id ss"
  by (induction rule: list_all2_induct) (simp_all add: step_evolves_def)

lemma handleCompletion_evolves:
  "list_all2 step_evolves (newSteps d) (newSteps (handleCompletion stepId rd d))"
  by (rule list_all2_all_nthI)
     (auto simp: handleCompletion_nth step_evolves_def advances_def split: option.splits)

lemma activateStep_evolves:
  "list_all2 step_evolves (newSteps d) (newSteps (activateStep stepId d))"
  by (rule list_all2_all_nthI)
     (auto simp: activateStep_nth step_evolves_def advances_def split: option.splits)

lemma applyEvent_evolves:
  "list_all2 step_evolves (newSteps d) (newSteps (applyEvent ev d))"
proof (cases ev)
  case (Log msg)
  have two: "list_all2 step_evolves (newSteps d)
     (newSteps (activateStep a (handleCompletion b None d)))" for a b
    using evolves_trans [OF handleCompletion_evolves activateStep_evolves] .
  show ?thesis
    unfolding Log applyEvent.simps Let_def
    by (simp add: handleCompletion_evolves activateStep_evolves evolves_refl two)
next
  case (Progress step stat)
  then show ?thesis by (simp add: handleCompletion_evolves evolves_refl)
next
  case (ClusteringResult dat)
  then show ?thesis
    using evolves_trans [OF handleCompletion_evolves handleCompletion_evolves] by simp
next
  case (VerificationUpdate dat)
  then show ?thesis by (simp add: activateStep_evolves)
next
  case CompleteEvent
  then show ?thesis
    using evolves_trans [OF handleCompletion_evolves handleCompletion_evolves] by simp
next
  case (ErrorEvent msg)
  then show ?thesis by (simp add: evolves_refl)
next
  case (JsonResult dat)
  then show ?thesis by (simp add: evolves_refl)
qed

lemma stepsUpdater_evolves: "list_all2 step_evolves prev (stepsUpdater ev prev)"
  using applyEvent_evolves [of "\<lparr>newSteps = prev, changed = False\<rparr>" ev]
  by (simp add: stepsUpdater_eq)


section \<open>Which steps can be active together\<close>

lemma pipeline_ids_find:
  "pipeline_ids steps \<Longrightarrow> findIndexById steps ident = findIndexById INITIAL_PIPELINE ident"
  unfolding pipeline_ids_def by (rule findIndexById_cong)

lemma pipeline_ids_handleCompletion:
  "pipeline_ids (newSteps d) \<Longrightarrow> pipeline_ids (newSteps (handleCompletion stepId rd d))"
  using evolves_ids [OF handleCompletion_evolves, of stepId rd d]
  by (simp add: pipeline_ids_def)

lemma pipeline_ids_activateStep:
  "pipeline_ids (newSteps d) \<Longrightarrow> pipeline_ids (newSteps (activateStep stepId d))"
  using evolves_ids [OF activateStep_evolves, of stepId d]
  by (simp add: pipeline_ids_def)

lemma handleCompletion_adjacent:
  assumes "status (newSteps d ! Suc i) = Active \<longrightarrow> status (newSteps d ! i) = Complete"
    and "status (newSteps (handleCompletion stepId rd d) ! Suc i) = Active"
  shows "status (newSteps (handleCompletion stepId rd d) ! i) = Complete"
  using assms by (auto simp: handleCompletion_nth split: option.splits if_splits)

lemma activateStep_adjacent:
  assumes "status (newSteps d ! Suc i) = Active \<longrightarrow> status (newSteps d ! i) = Complete"
    and "status (newSteps (activateStep stepId d) ! Suc i) = Active"
    and "findIndexById (newSteps d) stepId \<noteq> Some (Suc i) \<or> status (newSteps d ! i) = Complete"
  shows "status (newSteps (activateStep stepId d) ! i) = Complete"
  using assms by (auto simp: activateStep_nth split: option.splits if_splits)

lemma handleCompletion_cascade_inv:
  assumes "cascade_inv (newSteps d)"
  shows "cascade_inv (newSteps (handleCompletion stepId rd d))"
  using assms handleCompletion_adjacent [of d 1 stepId rd]
    handleCompletion_adjacent [of d 2 stepId rd] handleCompletion_adjacent [of d 4 stepId rd]
  by (simp add: cascade_inv_def eval_nat_numeral)

lemma activateStep_cascade_inv:
  assumes inv: "cascade_inv (newSteps d)" and ids: "pipeline_ids (newSteps d)"
    and which: "stepId \<in> {''read_sequences'', ''generate_embeddings'', ''ncbi_verification''} \<or>
                (stepId = ''umap_hdbscan'' \<and> status (newSteps d ! 1) = Complete)"
  shows "cascade_inv (newSteps (activateStep stepId d))"
proof -
  have idx: "findIndexById (newSteps d) stepId \<in> {Some 0, Some 1, Some 4} \<or>
             (findIndexById (newSteps d) stepId = Some 2 \<and> status (newSteps d ! 1) = Complete)"
    using which by (auto simp: pipeline_ids_find [OF ids] findIndexById_initial)
  have c1: "findIndexById (newSteps d) stepId \<noteq> Some (Suc 1) \<or>
            status (newSteps d ! 1) = Complete"
    using idx by auto
  have c2: "findIndexById (newSteps d) stepId \<noteq> Some (Suc 2) \<or>
            status (newSteps d ! 2) = Complete"
    using idx by auto
  have c4: "findIndexById (newSteps d) stepId \<noteq> Some (Suc 4) \<or>
            status (newSteps d ! 4) = Complete"
    using idx by auto
  show ?thesis
    using inv activateStep_adjacent [of d 1 stepId, OF _ _ c1]
      activateStep_adjacent [of d 2 stepId, OF _ _ c2]
      activateStep_adjacent [of d 4 stepId, OF _ _ c4]
    by (simp add: cascade_inv_def eval_nat_numeral)
qed

lemma reachable_handleCompletion:
  "reachable_inv (newSteps d) \<Longrightarrow> reachable_inv (newSteps (handleCompletion stepId rd d))"
  by (simp add: reachable_inv_def pipeline_ids_handleCompletion handleCompletion_cascade_inv)

lemma reachable_activateStep:
  "reachable_inv (newSteps d) \<Longrightarrow>
   stepId \<in> {''read_sequences'', ''generate_embeddings'', ''ncbi_verification''} \<Longrightarrow>
   reachable_inv (newSteps (activateStep stepId d))"
  by (simp add: reachable_inv_def pipeline_ids_activateStep activateStep_cascade_inv)

lemma reachable_running_umap:
  assumes "reachable_inv (newSteps d)"
  shows "reachable_inv (newSteps (activateStep ''umap_hdbscan''
           (handleCompletion ''generate_embeddings'' None d)))"
proof -
  let ?d1 = "handleCompletion ''generate_embeddings'' None d"
  have r1: "reachable_inv (newSteps ?d1)"
    using assms by (rule reachable_handleCompletion)
  have "findIndexById (newSteps d) ''generate_embeddings'' = Some 1"
    using assms by (simp add: reachable_inv_def pipeline_ids_find findIndexById_initial)
  then have "status (newSteps ?d1 ! 1) = Complete"
    by (rule handleCompletion_completes)
  with r1 show ?thesis
    by (simp add: reachable_inv_def pipeline_ids_activateStep activateStep_cascade_inv)
qed

lemma reachable_applyEvent:
  assumes "reachable_inv (newSteps d)"
  shows "reachable_inv (newSteps (applyEvent ev d))"
proof (cases ev)
  case (Log msg)
  show ?thesis
    unfolding Log applyEvent.simps Let_def
    using assms
    by (simp add: reachable_handleCompletion reachable_activateStep reachable_running_umap)
next
  case (Progress step stat)
  with assms show ?thesis by (simp add: reachable_handleCompletion)
next
  case (ClusteringResult dat)
  with assms show ?thesis by (simp add: reachable_handleCompletion)
next
  case (VerificationUpdate dat)
  with assms show ?thesis by (simp add: reachable_activateStep)
next
  case CompleteEvent
  with assms show ?thesis by (simp add: reachable_handleCompletion)
next
  case (ErrorEvent msg)
  with assms show ?thesis by simp
next
  case (JsonResult dat)
  with assms show ?thesis by simp
qed

lemma reachable_initial: "reachable_inv INITIAL_PIPELINE"
  by (simp add: reachable_inv_def pipeline_ids_def cascade_inv_def INITIAL_PIPELINE_def)

lemma reachable_stepsUpdater: "reachable_inv prev \<Longrightarrow> reachable_inv (stepsUpdater ev prev)"
  using reachable_applyEvent [of "\<lparr>newSteps = prev, changed = False\<rparr>" ev]
  by (simp add: stepsUpdater_eq)


lemma six_steps:
  assumes "length steps = 6"
  obtains a b c d e f where "steps = [a, b, c, d, e, f]"
proof -
  from assms obtain a s1 where "steps = a # s1" "length s1 = 5" by (cases steps) simp_all
  moreover then obtain b s2 where "s1 = b # s2" "length s2 = 4" by (cases s1) simp_all
  moreover then obtain c s3 where "s2 = c # s3" "length s3 = 3" by (cases s2) simp_all
  moreover then obtain d s4 where "s3 = d # s4" "length s4 = 2" by (cases s3) simp_all
  moreover then obtain e s5 where "s4 = e # s5" "length s5 = 1" by (cases s4) simp_all
  moreover then obtain f where "s5 = [f]" by (cases s5) simp_all
  ultimately show ?thesis using that by simp
qed

lemma cascade_inv_count:
  assumes "length steps = 6" and "cascade_inv steps"
  shows "activeCount steps \<le> 4"
proof -
  from assms(1) obtain a b c d e f where s: "steps = [a, b, c, d, e, f]" by (rule six_steps)
  from assms(2) have
    "status c = Active \<longrightarrow> status b = Complete"
    "status d = Active \<longrightarrow> status c = Complete"
    "status f = Active \<longrightarrow> status e = Complete"
    by (simp_all add: cascade_inv_def s eval_nat_numeral)
  then show ?thesis by (auto simp: s activeCount_def)
qed


lemma initial_all_pending: "i < 6 \<Longrightarrow> status (INITIAL_PIPELINE ! i) = Pending"
proof -
  have "list_all (\<lambda>s. status s = Pending) INITIAL_PIPELINE"
    by (simp add: INITIAL_PIPELINE_def)
  moreover have "length INITIAL_PIPELINE = 6"
    by (simp add: INITIAL_PIPELINE_def)
  ultimately show "i < 6 \<Longrightarrow> status (INITIAL_PIPELINE ! i) = Pending"
    by (simp add: list_all_length)
qed

section \<open>The array of the component over its renders\<close>

lemma logsEffect_Nil: "logsEffect [] prev = INITIAL_PIPELINE"
  by (simp add: logsEffect_def)

lemma logsEffect_snoc: "logsEffect (evs @ [ev]) prev = stepsUpdater ev prev"
  by (simp add: logsEffect_def)

lemma logsEffect_nonempty: "ls \<noteq> [] \<Longrightarrow> logsEffect ls prev = stepsUpdater (last ls) prev"
  by (simp add: logsEffect_def)

lemma componentSteps_Nil: "componentSteps [] = INITIAL_PIPELINE"
  by (simp add: componentSteps_def)

lemma componentSteps_snoc:
  "componentSteps (rs @ [ls]) = logsEffect ls (componentSteps rs)"
  by (simp add: componentSteps_def)

lemma componentSteps_append:
  "componentSteps (a @ b) = foldl (\<lambda>st ls. logsEffect ls st) (componentSteps a) b"
  by (simp add: componentSteps_def)

lemma logsEffect_evolves: "ls \<noteq> [] \<Longrightarrow> list_all2 step_evolves prev (logsEffect ls prev)"
  by (simp add: logsEffect_nonempty stepsUpdater_evolves)

lemma foldl_effect_evolves:
  "[] \<notin> set b \<Longrightarrow> list_all2 step_evolves steps (foldl (\<lambda>st ls. logsEffect ls st) steps b)"
proof (induction b arbitrary: steps)
  case Nil
  show ?case by (simp add: evolves_refl)
next
  case (Cons ls b)
  then have "ls \<noteq> []" and "[] \<notin> set b" by auto
  then show ?case
    using evolves_trans [OF logsEffect_evolves Cons.IH] by simp
qed

lemma componentSteps_evolves:
  "[] \<notin> set b \<Longrightarrow> list_all2 step_evolves (componentSteps a) (componentSteps (a @ b))"
  by (simp add: componentSteps_append foldl_effect_evolves)

lemma reachable_logsEffect: "reachable_inv prev \<Longrightarrow> reachable_inv (logsEffect ls prev)"
  by (simp add: logsEffect_def reachable_initial reachable_stepsUpdater)

lemma reachable_foldl:
  "reachable_inv steps \<Longrightarrow> reachable_inv (foldl (\<lambda>st ls. logsEffect ls st) steps b)"
  by (induction b arbitrary: steps) (simp_all add: reachable_logsEffect)

lemma reachable_componentSteps: "reachable_inv (componentSteps renders)"
  by (simp add: componentSteps_def reachable_foldl reachable_initial)

lemma componentSteps_pipeline_ids: "pipeline_ids (componentSteps renders)"
  using reachable_componentSteps by (simp add: reachable_inv_def)

lemma pipeline_ids_length: "pipeline_ids steps \<Longrightarrow> length steps = 6"
  unfolding pipeline_ids_def
  by (drule arg_cong [where f = length]) (simp add: INITIAL_PIPELINE_def)

lemma componentSteps_length: "length (componentSteps renders) = 6"
  using componentSteps_pipeline_ids by (rule pipeline_ids_length)

lemma componentSteps_ids:
  "map step_id (componentSteps renders) =
     [''read_sequences'', ''generate_embeddings'', ''umap_hdbscan'',
      ''clustering_result'', ''ncbi_verification'', ''analysis_complete'']"
  using componentSteps_pipeline_ids [of renders]
  by (simp add: pipeline_ids_def INITIAL_PIPELINE_def)

lemma componentSteps_nth_evolves:
  "[] \<notin> set b \<Longrightarrow> i < 6 \<Longrightarrow>
   step_evolves (componentSteps a ! i) (componentSteps (a @ b) ! i)"
  using componentSteps_evolves [of b a]
  by (simp add: list_all2_conv_all_nth componentSteps_length)

lemma componentSteps_keeps_complete:
  assumes "[] \<notin> set b" and "i < 6" and "status (componentSteps a ! i) = Complete"
  shows "componentSteps (a @ b) ! i = componentSteps a ! i"
  using componentSteps_nth_evolves [OF assms(1) assms(2), of a] assms(3)
  by (simp add: step_evolves_def)

lemma componentSteps_active_le: "activeCount (componentSteps renders) \<le> 4"
  using reachable_componentSteps [of renders]
  by (simp add: cascade_inv_count componentSteps_length reachable_inv_def)






section \<open>Evaluation on concrete renders\<close>

lemmas reducer_eval =
  componentSteps_def logsEffect_def stepsUpdater_def INITIAL_PIPELINE_def toLowerCase_def
  toLowerChar_def handleCompletion_def activateStep_def

section \<open>Two completions in one run of the updater\<close>

lemma handleCompletion_keeps_complete:
  "j < length (newSteps d) \<Longrightarrow> status (newSteps d ! j) = Complete \<Longrightarrow>
   newSteps (handleCompletion stepId rd d) ! j = newSteps d ! j"
  using handleCompletion_evolves [of d stepId rd]
  by (simp add: list_all2_conv_all_nth step_evolves_def)

text \<open>Two completions in a row, as the updater runs them for the two terminal events.\<close>

lemma two_completions:
  assumes ids: "pipeline_ids steps"
    and a: "findIndexById INITIAL_PIPELINE a = Some i"
    and b: "findIndexById INITIAL_PIPELINE b = Some j"
  shows "status (newSteps (handleCompletion b rb
            (handleCompletion a ra \<lparr>newSteps = steps, changed = False\<rparr>)) ! i) = Complete \<and>
         status (newSteps (handleCompletion b rb
            (handleCompletion a ra \<lparr>newSteps = steps, changed = False\<rparr>)) ! j) = Complete"
proof -
  let ?d0 = "\<lparr>newSteps = steps, changed = False\<rparr>"
  let ?d1 = "handleCompletion a ra ?d0"
  have ids0: "pipeline_ids (newSteps ?d0)" using ids by simp
  then have ids1: "pipeline_ids (newSteps ?d1)" by (rule pipeline_ids_handleCompletion)
  have "findIndexById (newSteps ?d0) a = Some i"
    using a by (simp add: pipeline_ids_find [OF ids])
  then have i: "i < length (newSteps ?d1)" and ci: "status (newSteps ?d1 ! i) = Complete"
    using findIndexById_Some [of steps a i] by (simp_all add: handleCompletion_nth)
  have "findIndexById (newSteps ?d1) b = Some j"
    using b by (simp add: pipeline_ids_find [OF ids1])
  then have "status (newSteps (handleCompletion b rb ?d1) ! j) = Complete"
    by (rule handleCompletion_completes)
  moreover have "status (newSteps (handleCompletion b rb ?d1) ! i) = Complete"
    using handleCompletion_keeps_complete [OF i ci, of b rb] ci by simp
  ultimately show ?thesis by simp
qed

lemma clustering_result_step:
  assumes ids: "pipeline_ids steps"
  shows "status (stepsUpdater (ClusteringResult dat) steps ! 2) = Complete \<and>
         status (stepsUpdater (ClusteringResult dat) steps ! 3) = Complete \<and>
         resultData (stepsUpdater (ClusteringResult dat) steps ! 3) =
           (if status (steps ! 3) = Complete then resultData (steps ! 3) else Some dat)"
proof -
  let ?d0 = "\<lparr>newSteps = steps, changed = False\<rparr>"
  let ?d1 = "handleCompletion ''umap_hdbscan'' None ?d0"
  have upd: "stepsUpdater (ClusteringResult dat) steps =
             newSteps (handleCompletion ''clustering_result'' (Some dat) ?d1)"
    by (simp add: stepsUpdater_eq)
  have f0: "findIndexById (newSteps ?d0) ''umap_hdbscan'' = Some 2"
    using ids by (simp add: pipeline_ids_find findIndexById_initial)
  have "pipeline_ids (newSteps ?d1)"
    using ids pipeline_ids_handleCompletion [of ?d0] by simp
  then have f1: "findIndexById (newSteps ?d1) ''clustering_result'' = Some 3"
    by (simp add: pipeline_ids_find findIndexById_initial)
  have d1: "status (newSteps ?d1 ! 3) = Complete \<longleftrightarrow> status (steps ! 3) = Complete"
    "status (steps ! 3) = Complete \<Longrightarrow> newSteps ?d1 ! 3 = steps ! 3"
    using f0 by (auto simp: handleCompletion_nth)
  have "resultData (newSteps (handleCompletion ''clustering_result'' (Some dat) ?d1) ! 3) =
           (if status (steps ! 3) = Complete then resultData (steps ! 3) else Some dat)"
    using f1 d1 by (simp add: handleCompletion_nth)
  with two_completions [OF ids findIndexById_initial(3) findIndexById_initial(4), of "Some dat" None]
  show ?thesis by (simp add: upd)
qed

lemma complete_event_step:
  assumes ids: "pipeline_ids steps"
  shows "status (stepsUpdater CompleteEvent steps ! 4) = Complete \<and>
         status (stepsUpdater CompleteEvent steps ! 5) = Complete"
  using two_completions [OF ids findIndexById_initial(5) findIndexById_initial(6), of None None]
  by (simp add: stepsUpdater_eq)


section \<open>The claims about the reducer\<close>

text \<open>
  C1 (monotonicity), as stated: for every log \<open>L\<close> and prefix \<open>P\<close> of \<open>L\<close>, a step that is
  complete in the array derived from \<open>P\<close> is complete in the array derived from \<open>L\<close>. It
  fails for the array as a function of the log: the component that renders \<open>P\<close> alone has
  \<^verbatim>\<open>clustering_result\<close> complete, the component that renders the longer \<open>L\<close> alone reads
  only the last event of \<open>L\<close> and has the step pending.
\<close>

theorem mounted_log_counterexample:
  "prefix [ClusteringResult scenarioPayload] [ClusteringResult scenarioPayload, Log ''done''] \<and>
   status (componentSteps [[ClusteringResult scenarioPayload]] ! 3) = Complete \<and>
   status (componentSteps [[ClusteringResult scenarioPayload, Log ''done'']] ! 3) = Pending"
  by (simp add: reducer_eval)

text \<open>
  C1, amended: for every log \<open>L\<close>, every prefix \<open>P\<close> of \<open>L\<close> and every sequence of renders in
  which the component renders \<open>P\<close>, then only logs that extend \<open>P\<close>, and at last \<open>L\<close>: a
  step that is complete after the render of \<open>P\<close> is the same step, complete and with the
  same \<open>resultData\<close>, after the render of \<open>L\<close>. What was rendered before \<open>P\<close> is arbitrary.
\<close>

theorem complete_steps_kept:
  assumes "prefix P L"
    and "\<forall>ls \<in> set between. prefix P ls"
    and "i < length (componentSteps (before @ [P]))"
    and "status (componentSteps (before @ [P]) ! i) = Complete"
  shows "step_id (componentSteps (before @ [P] @ between @ [L]) ! i) =
           step_id (componentSteps (before @ [P]) ! i) \<and>
         status (componentSteps (before @ [P] @ between @ [L]) ! i) = Complete \<and>
         resultData (componentSteps (before @ [P] @ between @ [L]) ! i) =
           resultData (componentSteps (before @ [P]) ! i)"
proof -
  from assms(3) have i: "i < 6" by (simp add: componentSteps_length)
  have "P \<noteq> []"
  proof
    assume "P = []"
    then have "componentSteps (before @ [P]) = INITIAL_PIPELINE"
      by (simp add: componentSteps_snoc logsEffect_Nil)
    with assms(4) initial_all_pending [OF i] show False by simp
  qed
  with assms(1) assms(2) have "[] \<notin> set (between @ [L])"
    by auto
  then have "componentSteps ((before @ [P]) @ (between @ [L])) ! i =
             componentSteps (before @ [P]) ! i"
    using i assms(4) by (rule componentSteps_keeps_complete)
  with assms(4) show ?thesis by simp
qed

theorem complete_steps_kept_witness:
  "prefix [ClusteringResult scenarioPayload]
     [ClusteringResult scenarioPayload, Log ''done'', CompleteEvent] \<and>
   prefix [ClusteringResult scenarioPayload] [ClusteringResult scenarioPayload, Log ''done''] \<and>
   3 < length (componentSteps ([] @ [[ClusteringResult scenarioPayload]])) \<and>
   status (componentSteps ([] @ [[ClusteringResult scenarioPayload]]) ! 3) = Complete \<and>
   status (componentSteps ([] @ [[ClusteringResult scenarioPayload]] @
              [[ClusteringResult scenarioPayload, Log ''done'']] @
              [[ClusteringResult scenarioPayload, Log ''done'', CompleteEvent]]) ! 3) = Complete \<and>
   resultData (componentSteps ([] @ [[ClusteringResult scenarioPayload]] @
              [[ClusteringResult scenarioPayload, Log ''done'']] @
              [[ClusteringResult scenarioPayload, Log ''done'', CompleteEvent]]) ! 3) =
     Some scenarioPayload"
proof -
  have h1: "prefix [ClusteringResult scenarioPayload]
              [ClusteringResult scenarioPayload, Log ''done'', CompleteEvent]"
    by simp
  have h2: "\<forall>ls \<in> set [[ClusteringResult scenarioPayload, Log ''done'']].
              prefix [ClusteringResult scenarioPayload] ls"
    by simp
  have h3: "3 < length (componentSteps ([] @ [[ClusteringResult scenarioPayload]]))"
    by (simp add: componentSteps_length)
  have h4: "status (componentSteps ([] @ [[ClusteringResult scenarioPayload]]) ! 3) = Complete"
    by (simp add: reducer_eval)
  have h5: "resultData (componentSteps ([] @ [[ClusteringResult scenarioPayload]]) ! 3) =
              Some scenarioPayload"
    by (simp add: reducer_eval)
  have k: "status (componentSteps ([] @ [[ClusteringResult scenarioPayload]] @
              [[ClusteringResult scenarioPayload, Log ''done'']] @
              [[ClusteringResult scenarioPayload, Log ''done'', CompleteEvent]]) ! 3) = Complete \<and>
           resultData (componentSteps ([] @ [[ClusteringResult scenarioPayload]] @
              [[ClusteringResult scenarioPayload, Log ''done'']] @
              [[ClusteringResult scenarioPayload, Log ''done'', CompleteEvent]]) ! 3) =
             resultData (componentSteps ([] @ [[ClusteringResult scenarioPayload]]) ! 3)"
    using complete_steps_kept [OF h1 h2 h3 h4] by blast
  from k have k1: "status (componentSteps ([] @ [[ClusteringResult scenarioPayload]] @
              [[ClusteringResult scenarioPayload, Log ''done'']] @
              [[ClusteringResult scenarioPayload, Log ''done'', CompleteEvent]]) ! 3) = Complete"
    by (rule conjunct1)
  from k h5 have k2: "resultData (componentSteps ([] @ [[ClusteringResult scenarioPayload]] @
              [[ClusteringResult scenarioPayload, Log ''done'']] @
              [[ClusteringResult scenarioPayload, Log ''done'', CompleteEvent]]) ! 3) =
             Some scenarioPayload"
    by (simp only:)
  have h2': "prefix [ClusteringResult scenarioPayload]
               [ClusteringResult scenarioPayload, Log ''done'']"
    by simp
  show ?thesis
    by (intro conjI h1 h2' h3 h4 k1 k2)
qed

text \<open>
  C2 (single-active invariant), as stated: at most one of the six steps of a derived array
  is active. It fails: a log message naming the reading of the sequences and, one render
  later, one naming the generation of the embeddings each activate a pending step, and
  nothing deactivates the first.
\<close>

theorem single_active_counterexample:
  "\<not> activeCount (componentSteps [[Log ''reading sequences''],
        [Log ''reading sequences'', Log ''generating embeddings'']]) \<le> 1"
  by (simp add: reducer_eval activeCount_def)

text \<open>
  C2, amended: after every sequence of renders the array holds the six steps in their
  order and at most four of them are active; \<^verbatim>\<open>umap_hdbscan\<close>, \<^verbatim>\<open>clustering_result\<close> and
  \<^verbatim>\<open>analysis_complete\<close> are active only while their predecessor is complete; and four
  steps are active after the four renders of the last conjunct.
\<close>

theorem active_steps_bound:
  "activeCount (componentSteps renders) \<le> 4 \<and>
   map step_id (componentSteps renders) =
     [''read_sequences'', ''generate_embeddings'', ''umap_hdbscan'',
      ''clustering_result'', ''ncbi_verification'', ''analysis_complete''] \<and>
   (status (componentSteps renders ! 2) = Active \<longrightarrow>
      status (componentSteps renders ! 1) = Complete) \<and>
   (status (componentSteps renders ! 3) = Active \<longrightarrow>
      status (componentSteps renders ! 2) = Complete) \<and>
   (status (componentSteps renders ! 5) = Active \<longrightarrow>
      status (componentSteps renders ! 4) = Complete) \<and>
   activeCount (componentSteps
     [[Log ''reading sequences''],
      [Log ''reading sequences'', Log ''generating embeddings''],
      [Log ''reading sequences'', Log ''generating embeddings'',
       Progress ''umap_hdbscan'' ''complete''],
      [Log ''reading sequences'', Log ''generating embeddings'',
       Progress ''umap_hdbscan'' ''complete'', Log ''ncbi verification'']]) = 4"
proof -
  have four: "activeCount (componentSteps
     [[Log ''reading sequences''],
      [Log ''reading sequences'', Log ''generating embeddings''],
      [Log ''reading sequences'', Log ''generating embeddings'',
       Progress ''umap_hdbscan'' ''complete''],
      [Log ''reading sequences'', Log ''generating embeddings'',
       Progress ''umap_hdbscan'' ''complete'', Log ''ncbi verification'']]) = 4"
    by (simp add: reducer_eval activeCount_def)
  have "cascade_inv (componentSteps renders)"
    using reachable_componentSteps [of renders] by (simp add: reachable_inv_def)
  then have adj:
    "status (componentSteps renders ! 2) = Active \<longrightarrow>
       status (componentSteps renders ! 1) = Complete"
    "status (componentSteps renders ! 3) = Active \<longrightarrow>
       status (componentSteps renders ! 2) = Complete"
    "status (componentSteps renders ! 5) = Active \<longrightarrow>
       status (componentSteps renders ! 4) = Complete"
    by (simp_all add: cascade_inv_def)
  show ?thesis
    by (intro conjI componentSteps_active_le componentSteps_ids adj four)
qed

theorem active_steps_bound_witness:
  "status (componentSteps [[Log ''running umap'']] ! 2) = Active \<and>
   status (componentSteps [[Log ''running umap'']] ! 1) = Complete \<and>
   status (componentSteps [[Progress ''umap_hdbscan'' ''complete'']] ! 3) = Active \<and>
   status (componentSteps [[Progress ''umap_hdbscan'' ''complete'']] ! 2) = Complete \<and>
   status (componentSteps [[Progress ''ncbi_verification'' ''complete'']] ! 5) = Active \<and>
   status (componentSteps [[Progress ''ncbi_verification'' ''complete'']] ! 4) = Complete"
proof -
  have a: "status (componentSteps [[Log ''running umap'']] ! 2) = Active"
    by (simp add: reducer_eval)
  have b: "status (componentSteps [[Progress ''umap_hdbscan'' ''complete'']] ! 3) = Active"
    by (simp add: reducer_eval)
  have c: "status (componentSteps [[Progress ''ncbi_verification'' ''complete'']] ! 5) = Active"
    by (simp add: reducer_eval)
  have a': "status (componentSteps [[Log ''running umap'']] ! 1) = Complete"
    using active_steps_bound [of "[[Log ''running umap'']]"] a by blast
  have b': "status (componentSteps [[Progress ''umap_hdbscan'' ''complete'']] ! 2) = Complete"
    using active_steps_bound [of "[[Progress ''umap_hdbscan'' ''complete'']]"] b by blast
  have c': "status (componentSteps [[Progress ''ncbi_verification'' ''complete'']] ! 4) = Complete"
    using active_steps_bound [of "[[Progress ''ncbi_verification'' ''complete'']]"] c by blast
  show ?thesis
    by (intro conjI a a' b b' c c')
qed

text \<open>
  C3 (cascade rule). When \<^verbatim>\<open>handleCompletion\<close> finds the step at index \<open>i\<close> and a next
  step exists: a next step that is not pending (active, complete or error) is left exactly
  as it is; a pending next step becomes active when step \<open>i\<close> was not complete before,
  and then step \<open>i\<close> is complete afterwards.
\<close>

theorem handleCompletion_cascade_rule:
  assumes "findIndexById (newSteps d) stepId = Some i" and "Suc i < length (newSteps d)"
  shows "(status (newSteps d ! Suc i) \<noteq> Pending \<longrightarrow>
            newSteps (handleCompletion stepId rd d) ! Suc i = newSteps d ! Suc i) \<and>
         (status (newSteps d ! i) \<noteq> Complete \<and> status (newSteps d ! Suc i) = Pending \<longrightarrow>
            newSteps (handleCompletion stepId rd d) ! Suc i =
              (newSteps d ! Suc i)\<lparr>status := Active\<rparr>) \<and>
         (status (newSteps d ! i) \<noteq> Complete \<longrightarrow>
            status (newSteps (handleCompletion stepId rd d) ! i) = Complete)"
  using assms by (simp add: handleCompletion_nth)

theorem handleCompletion_cascade_rule_witness:
  "findIndexById (newSteps \<lparr>newSteps = INITIAL_PIPELINE, changed = False\<rparr>) ''read_sequences''
     = Some 0 \<and>
   Suc 0 < length (newSteps \<lparr>newSteps = INITIAL_PIPELINE, changed = False\<rparr>) \<and>
   status (INITIAL_PIPELINE ! 0) \<noteq> Complete \<and>
   status (INITIAL_PIPELINE ! Suc 0) = Pending \<and>
   newSteps (handleCompletion ''read_sequences'' None
      \<lparr>newSteps = INITIAL_PIPELINE, changed = False\<rparr>) ! Suc 0 =
     (INITIAL_PIPELINE ! Suc 0)\<lparr>status := Active\<rparr> \<and>
   status (newSteps (handleCompletion ''read_sequences'' None
      \<lparr>newSteps = INITIAL_PIPELINE, changed = False\<rparr>) ! 0) = Complete \<and>
   findIndexById (newSteps \<lparr>newSteps = componentSteps [[Log ''generating embeddings'']],
      changed = False\<rparr>) ''read_sequences'' = Some 0 \<and>
   status (componentSteps [[Log ''generating embeddings'']] ! Suc 0) \<noteq> Pending \<and>
   newSteps (handleCompletion ''read_sequences'' None
      \<lparr>newSteps = componentSteps [[Log ''generating embeddings'']], changed = False\<rparr>) ! Suc 0 =
     componentSteps [[Log ''generating embeddings'']] ! Suc 0"
proof -
  let ?d = "\<lparr>newSteps = INITIAL_PIPELINE, changed = False\<rparr>"
  let ?e = "\<lparr>newSteps = componentSteps [[Log ''generating embeddings'']], changed = False\<rparr>"
  have a1: "findIndexById (newSteps ?d) ''read_sequences'' = Some 0"
    by (simp add: INITIAL_PIPELINE_def)
  have a2: "Suc 0 < length (newSteps ?d)"
    by (simp add: INITIAL_PIPELINE_def)
  have a3: "status (INITIAL_PIPELINE ! 0) \<noteq> Complete" "status (INITIAL_PIPELINE ! Suc 0) = Pending"
    by (simp_all add: INITIAL_PIPELINE_def)
  have b1: "findIndexById (newSteps ?e) ''read_sequences'' = Some 0"
    by (simp add: pipeline_ids_find [OF componentSteps_pipeline_ids] findIndexById_initial)
  have b2: "Suc 0 < length (newSteps ?e)"
    by (simp add: componentSteps_length)
  have b3: "status (componentSteps [[Log ''generating embeddings'']] ! Suc 0) \<noteq> Pending"
    by (simp add: reducer_eval)
  show ?thesis
    using handleCompletion_cascade_rule [OF a1 a2, of None]
      handleCompletion_cascade_rule [OF b1 b2, of None] a1 a2 a3 b1 b3
    by simp
qed



text \<open>
  C7 (clustering result, then complete), as stated: for every log that contains a
  \<^verbatim>\<open>clustering_result\<close> event followed by a \<^verbatim>\<open>complete\<close> event the array has
  \<^verbatim>\<open>umap_hdbscan\<close> and \<^verbatim>\<open>clustering_result\<close> complete, the latter with the payload of
  the event. It fails in two ways. When an earlier event has completed
  \<^verbatim>\<open>clustering_result\<close>, completing it again is a no-op and the \<open>resultData\<close> stays what the
  first completion attached (here nothing). And when both events reach the component in
  one render, only the \<^verbatim>\<open>complete\<close> event is read: \<^verbatim>\<open>umap_hdbscan\<close> and
  \<^verbatim>\<open>clustering_result\<close> stay pending.
\<close>

theorem clustering_payload_counterexample:
  "step_id (componentSteps
     [[Progress ''clustering_result'' ''complete''],
      [Progress ''clustering_result'' ''complete'', ClusteringResult scenarioPayload],
      [Progress ''clustering_result'' ''complete'', ClusteringResult scenarioPayload,
       CompleteEvent]] ! 3) = ''clustering_result'' \<and>
   resultData (componentSteps
     [[Progress ''clustering_result'' ''complete''],
      [Progress ''clustering_result'' ''complete'', ClusteringResult scenarioPayload],
      [Progress ''clustering_result'' ''complete'', ClusteringResult scenarioPayload,
       CompleteEvent]] ! 3) \<noteq> Some scenarioPayload \<and>
   map status (componentSteps [[ClusteringResult scenarioPayload, CompleteEvent]]) =
     [Pending, Pending, Pending, Pending, Complete, Complete]"
  by (simp add: reducer_eval)

text \<open>
  C7, amended: for every sequence of renders in which one render's log ends with a
  \<^verbatim>\<open>clustering_result\<close> event, a later render's log ends with a \<^verbatim>\<open>complete\<close> event, and
  no render after the first of the two has an empty log (as is the case while the log
  only grows): the array has \<^verbatim>\<open>umap_hdbscan\<close>, \<^verbatim>\<open>clustering_result\<close>,
  \<^verbatim>\<open>ncbi_verification\<close> and \<^verbatim>\<open>analysis_complete\<close> complete; the \<open>resultData\<close> of
  \<^verbatim>\<open>clustering_result\<close> is the payload of the event when the step was not complete before
  that render, and what it was before otherwise; and the statuses of \<^verbatim>\<open>read_sequences\<close>
  and \<^verbatim>\<open>generate_embeddings\<close> are no regression from those after any earlier render that
  only renders of non-empty logs follow.
\<close>

theorem clustering_then_complete:
  assumes "renders = r1 @ [pre @ [ClusteringResult dat]] @ r2 @ [mid @ [CompleteEvent]] @ r3"
    and "[] \<notin> set r2" and "[] \<notin> set r3"
    and "renders = earlier @ later" and "[] \<notin> set later"
  shows "map step_id (componentSteps renders) =
           [''read_sequences'', ''generate_embeddings'', ''umap_hdbscan'',
            ''clustering_result'', ''ncbi_verification'', ''analysis_complete''] \<and>
         status (componentSteps renders ! 2) = Complete \<and>
         status (componentSteps renders ! 3) = Complete \<and>
         status (componentSteps renders ! 4) = Complete \<and>
         status (componentSteps renders ! 5) = Complete \<and>
         resultData (componentSteps renders ! 3) =
           (if status (componentSteps r1 ! 3) = Complete
            then resultData (componentSteps r1 ! 3) else Some dat) \<and>
         advances (status (componentSteps earlier ! 0)) (status (componentSteps renders ! 0)) \<and>
         advances (status (componentSteps earlier ! 1)) (status (componentSteps renders ! 1))"
proof -
  let ?A = "r1 @ [pre @ [ClusteringResult dat]]"
  let ?B = "(?A @ r2) @ [mid @ [CompleteEvent]]"
  have rA: "renders = ?A @ (r2 @ [mid @ [CompleteEvent]] @ r3)" and rB: "renders = ?B @ r3"
    using assms(1) by simp_all
  have neA: "[] \<notin> set (r2 @ [mid @ [CompleteEvent]] @ r3)"
    using assms(2) assms(3) by simp
  have A: "status (componentSteps ?A ! 2) = Complete \<and> status (componentSteps ?A ! 3) = Complete \<and>
           resultData (componentSteps ?A ! 3) =
             (if status (componentSteps r1 ! 3) = Complete
              then resultData (componentSteps r1 ! 3) else Some dat)"
    unfolding componentSteps_snoc logsEffect_snoc
    using componentSteps_pipeline_ids by (rule clustering_result_step)
  have B: "status (componentSteps ?B ! 4) = Complete \<and> status (componentSteps ?B ! 5) = Complete"
    unfolding componentSteps_snoc logsEffect_snoc
    using componentSteps_pipeline_ids by (rule complete_event_step)
  have k2: "componentSteps renders ! 2 = componentSteps ?A ! 2"
    unfolding rA using neA A by (intro componentSteps_keeps_complete) simp_all
  have k3: "componentSteps renders ! 3 = componentSteps ?A ! 3"
    unfolding rA using neA A by (intro componentSteps_keeps_complete) simp_all
  have k4: "componentSteps renders ! 4 = componentSteps ?B ! 4"
    unfolding rB using assms(3) B by (intro componentSteps_keeps_complete) simp_all
  have k5: "componentSteps renders ! 5 = componentSteps ?B ! 5"
    unfolding rB using assms(3) B by (intro componentSteps_keeps_complete) simp_all
  have adv: "advances (status (componentSteps earlier ! 0)) (status (componentSteps renders ! 0))"
    "advances (status (componentSteps earlier ! 1)) (status (componentSteps renders ! 1))"
    unfolding assms(4)
    using componentSteps_nth_evolves [OF assms(5), of 0 earlier]
      componentSteps_nth_evolves [OF assms(5), of 1 earlier]
    by (simp_all add: step_evolves_def)
  from A B adv show ?thesis
    by (simp add: k2 k3 k4 k5 componentSteps_ids)
qed

theorem clustering_then_complete_witness:
  "[[ClusteringResult scenarioPayload], [ClusteringResult scenarioPayload, CompleteEvent]] =
     [] @ [[] @ [ClusteringResult scenarioPayload]] @ [] @
       [[ClusteringResult scenarioPayload] @ [CompleteEvent]] @ [] \<and>
   [[ClusteringResult scenarioPayload], [ClusteringResult scenarioPayload, CompleteEvent]] =
     [[ClusteringResult scenarioPayload]] @
       [[ClusteringResult scenarioPayload, CompleteEvent]] \<and>
   [] \<notin> set [[ClusteringResult scenarioPayload, CompleteEvent]] \<and>
   map status (componentSteps
     [[ClusteringResult scenarioPayload], [ClusteringResult scenarioPayload, CompleteEvent]]) =
     [Pending, Pending, Complete, Complete, Complete, Complete] \<and>
   resultData (componentSteps
     [[ClusteringResult scenarioPayload], [ClusteringResult scenarioPayload, CompleteEvent]] ! 3) =
     Some scenarioPayload"
proof -
  let ?R = "[[ClusteringResult scenarioPayload],
             [ClusteringResult scenarioPayload, CompleteEvent]]"
  have h1: "?R = [] @ [[] @ [ClusteringResult scenarioPayload]] @ [] @
       [[ClusteringResult scenarioPayload] @ [CompleteEvent]] @ []"
    by simp
  have h2: "[] \<notin> set ([] :: AnalysisLog list list)"
    by simp
  have h4: "?R = [[ClusteringResult scenarioPayload]] @
       [[ClusteringResult scenarioPayload, CompleteEvent]]"
    by simp
  have h5: "[] \<notin> set [[ClusteringResult scenarioPayload, CompleteEvent]]"
    by simp
  have h6: "map status (componentSteps ?R) =
     [Pending, Pending, Complete, Complete, Complete, Complete]"
    by (simp add: reducer_eval)
  have h7: "status (componentSteps [] ! 3) \<noteq> Complete"
    by (simp add: reducer_eval)
  have "resultData (componentSteps ?R ! 3) =
          (if status (componentSteps [] ! 3) = Complete then resultData (componentSteps [] ! 3)
           else Some scenarioPayload)"
    using clustering_then_complete [OF h1 h2 h2 h4 h5] by blast
  then have h8: "resultData (componentSteps ?R ! 3) = Some scenarioPayload"
    using h7 by (simp only: if_False)
  show ?thesis
    by (intro conjI h1 h4 h5 h6 h8)
qed

section \<open>The log of the two messages\<close>

lemma scenario_step:
  assumes "scenario_state steps"
    and "prefix ls [Log ''reading sequences'', Log ''found 1000 sequences'']"
  shows "scenario_state (logsEffect ls steps)"
proof -
  have e1: "stepsUpdater (Log ''reading sequences'')
              (stepsUpdater (Log ''reading sequences'') INITIAL_PIPELINE) =
            stepsUpdater (Log ''reading sequences'') INITIAL_PIPELINE"
    by (simp add: reducer_eval)
  have e2: "stepsUpdater (Log ''reading sequences'')
              (stepsUpdater (Log ''found 1000 sequences'') INITIAL_PIPELINE) =
            stepsUpdater (Log ''found 1000 sequences'') INITIAL_PIPELINE"
    by (simp add: reducer_eval)
  have e3: "stepsUpdater (Log ''found 1000 sequences'')
              (stepsUpdater (Log ''reading sequences'') INITIAL_PIPELINE) =
            stepsUpdater (Log ''found 1000 sequences'') INITIAL_PIPELINE"
    by (simp add: reducer_eval)
  have e4: "stepsUpdater (Log ''found 1000 sequences'')
              (stepsUpdater (Log ''found 1000 sequences'') INITIAL_PIPELINE) =
            stepsUpdater (Log ''found 1000 sequences'') INITIAL_PIPELINE"
    by (simp add: reducer_eval)
  from assms(2) have "ls = [] \<or> ls = [Log ''reading sequences''] \<or>
      ls = [Log ''reading sequences'', Log ''found 1000 sequences'']"
    by (auto simp: prefix_Cons)
  then show ?thesis
    using assms(1) unfolding scenario_state_def
    by (elim disjE) (simp_all only: logsEffect_Nil logsEffect_def e1 e2 e3 e4
          list.distinct last.simps if_False if_True simp_thms)
qed

lemma scenario_final:
  assumes "scenario_state steps"
  shows "logsEffect [Log ''reading sequences'', Log ''found 1000 sequences''] steps =
         stepsUpdater (Log ''found 1000 sequences'') INITIAL_PIPELINE"
proof -
  have e3: "stepsUpdater (Log ''found 1000 sequences'')
              (stepsUpdater (Log ''reading sequences'') INITIAL_PIPELINE) =
            stepsUpdater (Log ''found 1000 sequences'') INITIAL_PIPELINE"
    by (simp add: reducer_eval)
  have e4: "stepsUpdater (Log ''found 1000 sequences'')
              (stepsUpdater (Log ''found 1000 sequences'') INITIAL_PIPELINE) =
            stepsUpdater (Log ''found 1000 sequences'') INITIAL_PIPELINE"
    by (simp add: reducer_eval)
  have "logsEffect [Log ''reading sequences'', Log ''found 1000 sequences''] steps =
        stepsUpdater (Log ''found 1000 sequences'') steps"
    by (simp add: logsEffect_def)
  then show ?thesis
    using assms unfolding scenario_state_def
    by (elim disjE) (simp_all only: e3 e4)
qed

lemma scenario_foldl:
  assumes "\<forall>ls \<in> set h. prefix ls [Log ''reading sequences'', Log ''found 1000 sequences'']"
    and "scenario_state steps"
  shows "scenario_state (foldl (\<lambda>st ls. logsEffect ls st) steps h)"
  using assms by (induction h arbitrary: steps) (simp_all add: scenario_step)

text \<open>
  C8 (cascade correctness). For the log of the two messages \<^verbatim>\<open>reading sequences\<close> and
  \<^verbatim>\<open>found 1000 sequences\<close>, however the component comes to render it, mounted on it or
  after any renders of its prefixes, the array has \<^verbatim>\<open>read_sequences\<close> complete and
  \<^verbatim>\<open>generate_embeddings\<close> active (and the four later steps pending).
\<close>

theorem cascade_scenario:
  assumes "\<forall>ls \<in> set earlier.
             prefix ls [Log ''reading sequences'', Log ''found 1000 sequences'']"
  shows "map (\<lambda>s. (step_id s, status s))
           (componentSteps
              (earlier @ [[Log ''reading sequences'', Log ''found 1000 sequences'']])) =
         [(''read_sequences'', Complete), (''generate_embeddings'', Active),
          (''umap_hdbscan'', Pending), (''clustering_result'', Pending),
          (''ncbi_verification'', Pending), (''analysis_complete'', Pending)]"
proof -
  have "scenario_state (componentSteps earlier)"
    unfolding componentSteps_def
    using assms by (rule scenario_foldl) (simp add: scenario_state_def)
  then have "componentSteps
      (earlier @ [[Log ''reading sequences'', Log ''found 1000 sequences'']]) =
      stepsUpdater (Log ''found 1000 sequences'') INITIAL_PIPELINE"
    by (simp only: componentSteps_snoc scenario_final)
  then show ?thesis
    by (simp add: reducer_eval)
qed

theorem cascade_scenario_witness:
  "prefix [] [Log ''reading sequences'', Log ''found 1000 sequences''] \<and>
   prefix [Log ''reading sequences'']
     [Log ''reading sequences'', Log ''found 1000 sequences''] \<and>
   map (\<lambda>s. (step_id s, status s))
     (componentSteps ([[], [Log ''reading sequences'']] @
        [[Log ''reading sequences'', Log ''found 1000 sequences'']])) =
     [(''read_sequences'', Complete), (''generate_embeddings'', Active),
      (''umap_hdbscan'', Pending), (''clustering_result'', Pending),
      (''ncbi_verification'', Pending), (''analysis_complete'', Pending)]"
proof -
  have h: "\<forall>ls \<in> set [[], [Log ''reading sequences'']].
             prefix ls [Log ''reading sequences'', Log ''found 1000 sequences'']"
    by simp
  have p1: "prefix [] [Log ''reading sequences'', Log ''found 1000 sequences'']"
    and p2: "prefix [Log ''reading sequences'']
               [Log ''reading sequences'', Log ''found 1000 sequences'']"
    by simp_all
  show ?thesis
    by (intro conjI p1 p2 cascade_scenario [OF h])
qed


section \<open>The claims about the registry\<close>

lemma map_if_unchanged:
  "fid \<notin> fileId ` set xs \<Longrightarrow> map (\<lambda>s. if fileId s = fid then f s else s) xs = xs"
  by (induction xs) auto

lemma find_append_first:
  "find p xs = None \<Longrightarrow> p a \<Longrightarrow> find p (xs @ a # ys) = Some a"
  by (induction xs) (auto split: if_splits)

text \<open>
  C5 (registry key collision), as stated: a second \<^verbatim>\<open>addSample\<close> with the file id of an
  existing sample signals a failure and adds nothing. It fails: the second sample is
  appended, and the registry then holds two samples with the same file id.
\<close>

theorem duplicate_create_counterexample:
  "fileId sampleB = fileId sampleA \<and>
   addSample sampleB (addSample sampleA emptyStore) \<noteq> addSample sampleA emptyStore \<and>
   samples (addSample sampleB (addSample sampleA emptyStore)) = [sampleA, sampleB]"
  by (simp add: addSample_def emptyStore_def sampleA_def sampleB_def)

text \<open>
  C5, amended: calling \<^verbatim>\<open>addSample\<close> twice with the same file id signals nothing; the
  second sample is appended behind the first, the record created by the first call is
  unchanged, and when the id was new before the first call \<^verbatim>\<open>getSample\<close> still returns
  the first record.
\<close>

theorem addSample_duplicate:
  assumes "fileId b = fileId a"
  shows "samples (addSample b (addSample a state)) = samples state @ [a, b] \<and>
         (getSample (fileId a) state = None \<longrightarrow>
            getSample (fileId a) (addSample b (addSample a state)) = Some a)"
  using assms find_append_first [of "\<lambda>s. fileId s = fileId a" "samples state" a "[b]"]
  by (simp add: addSample_def getSample_def)

theorem addSample_duplicate_witness:
  "fileId sampleB = fileId sampleA \<and>
   getSample (fileId sampleA) emptyStore = None \<and>
   samples (addSample sampleB (addSample sampleA emptyStore)) = [sampleA, sampleB] \<and>
   getSample (fileId sampleA) (addSample sampleB (addSample sampleA emptyStore)) = Some sampleA"
proof -
  have h1: "fileId sampleB = fileId sampleA"
    by (simp add: sampleA_def sampleB_def)
  have h2: "getSample (fileId sampleA) emptyStore = None"
    by (simp add: getSample_def emptyStore_def)
  have h3: "samples emptyStore = []"
    by (simp add: emptyStore_def)
  show ?thesis
    using addSample_duplicate [OF h1, of emptyStore] h1 h2 h3 by simp
qed

text \<open>
  C6 (status only moves forward), as stated: no registry operation moves the status of a
  job backward on the path uploading, running, complete or error. It fails:
  \<^verbatim>\<open>updateSampleStatus\<close> writes the status it is given, here uploading over complete.
\<close>

theorem status_backward_counterexample:
  "sampleStatus sampleA = S_complete \<and>
   map sampleStatus (samples (updateSampleStatus ''f1'' S_uploading \<lparr>samples = [sampleA]\<rparr>)) =
     [S_uploading] \<and>
   status_rank S_uploading < status_rank (sampleStatus sampleA)"
  by (simp add: updateSampleStatus_def sampleA_def)

text \<open>
  C6, amended: \<^verbatim>\<open>updateSampleStatus\<close> overwrites the status of every sample with the
  given file id by the status it is passed, forward or backward, and changes the status
  of no other sample; every other registry operation leaves the status of every existing
  sample as it is (\<^verbatim>\<open>addSample\<close> only appends the new sample with its own status).
\<close>

theorem status_written_only_by_updateSampleStatus:
  "map sampleStatus (samples (updateSampleStatus fid st state)) =
     map (\<lambda>s. if fileId s = fid then st else sampleStatus s) (samples state) \<and>
   map sampleStatus (samples (addSampleLog fid lg state)) = map sampleStatus (samples state) \<and>
   map sampleStatus (samples (updateSampleProgress fid pr state)) =
     map sampleStatus (samples state) \<and>
   map sampleStatus (samples (setSampleAnalysisResult fid res state)) =
     map sampleStatus (samples state) \<and>
   map sampleStatus (samples (addSampleVerificationUpdate fid upd state)) =
     map sampleStatus (samples state) \<and>
   map sampleStatus (samples (addSample sample state)) =
     map sampleStatus (samples state) @ [sampleStatus sample]"
  by (simp add: updateSampleStatus_def addSampleLog_def updateSampleProgress_def
        setSampleAnalysisResult_def addSampleVerificationUpdate_def addSample_def)

text \<open>
  C10 (frame of the keyed mutations). Each of \<^verbatim>\<open>updateSampleStatus\<close>,
  \<^verbatim>\<open>addSampleLog\<close>, \<^verbatim>\<open>updateSampleProgress\<close>, \<^verbatim>\<open>setSampleAnalysisResult\<close> and
  \<^verbatim>\<open>addSampleVerificationUpdate\<close> keeps the number and order of the samples; a sample
  whose file id differs from the key is exactly as before; a sample with the key differs
  from before only in the targeted field; and when no sample has the key, the empty store
  included, the whole state is unchanged. The operations are total: there is no error
  result.
\<close>

theorem registry_frame:
  "(fid \<notin> fileId ` set (samples state) \<longrightarrow>
      updateSampleStatus fid st state = state \<and>
      addSampleLog fid lg state = state \<and>
      updateSampleProgress fid pr state = state \<and>
      setSampleAnalysisResult fid res state = state \<and>
      addSampleVerificationUpdate fid upd state = state) \<and>
   length (samples (updateSampleStatus fid st state)) = length (samples state) \<and>
   length (samples (addSampleLog fid lg state)) = length (samples state) \<and>
   length (samples (updateSampleProgress fid pr state)) = length (samples state) \<and>
   length (samples (setSampleAnalysisResult fid res state)) = length (samples state) \<and>
   length (samples (addSampleVerificationUpdate fid upd state)) = length (samples state) \<and>
   (\<forall>i < length (samples state).
      (fileId (samples state ! i) \<noteq> fid \<longrightarrow>
         samples (updateSampleStatus fid st state) ! i = samples state ! i \<and>
         samples (addSampleLog fid lg state) ! i = samples state ! i \<and>
         samples (updateSampleProgress fid pr state) ! i = samples state ! i \<and>
         samples (setSampleAnalysisResult fid res state) ! i = samples state ! i \<and>
         samples (addSampleVerificationUpdate fid upd state) ! i = samples state ! i) \<and>
      (fileId (samples state ! i) = fid \<longrightarrow>
         samples (updateSampleStatus fid st state) ! i =
           (samples state ! i)\<lparr>sampleStatus := st\<rparr> \<and>
         samples (addSampleLog fid lg state) ! i =
           (samples state ! i)\<lparr>logs := logs (samples state ! i) @ [lg]\<rparr> \<and>
         samples (updateSampleProgress fid pr state) ! i =
           (samples state ! i)\<lparr>progress := progress (samples state ! i) @ [pr]\<rparr> \<and>
         samples (setSampleAnalysisResult fid res state) ! i =
           (samples state ! i)\<lparr>latestAnalysis := Some res\<rparr> \<and>
         samples (addSampleVerificationUpdate fid upd state) ! i =
           (samples state ! i)\<lparr>verificationUpdates :=
              verificationUpdates (samples state ! i) @ [upd]\<rparr>))"
  by (simp add: updateSampleStatus_def addSampleLog_def updateSampleProgress_def
        setSampleAnalysisResult_def addSampleVerificationUpdate_def map_if_unchanged)

theorem registry_frame_witness:
  "''f1'' \<notin> fileId ` set (samples emptyStore) \<and>
   updateSampleStatus ''f1'' S_error emptyStore = emptyStore \<and>
   addSampleLog ''f1'' ''line'' emptyStore = emptyStore \<and>
   ''f3'' \<notin> fileId ` set (samples \<lparr>samples = [sampleA, sampleC]\<rparr>) \<and>
   updateSampleStatus ''f3'' S_error \<lparr>samples = [sampleA, sampleC]\<rparr> =
     \<lparr>samples = [sampleA, sampleC]\<rparr> \<and>
   1 < length (samples \<lparr>samples = [sampleA, sampleC]\<rparr>) \<and>
   fileId (samples \<lparr>samples = [sampleA, sampleC]\<rparr> ! 1) \<noteq> ''f1'' \<and>
   samples (addSampleLog ''f1'' ''line'' \<lparr>samples = [sampleA, sampleC]\<rparr>) ! 1 = sampleC \<and>
   fileId (samples \<lparr>samples = [sampleA, sampleC]\<rparr> ! 1) = ''f2'' \<and>
   samples (addSampleLog ''f2'' ''line'' \<lparr>samples = [sampleA, sampleC]\<rparr>) ! 1 =
     sampleC\<lparr>logs := [''started'', ''line'']\<rparr>"
proof -
  let ?st = "\<lparr>samples = [sampleA, sampleC]\<rparr>"
  have e: "''f1'' \<notin> fileId ` set (samples emptyStore)"
    by (simp add: emptyStore_def)
  have ids: "fileId sampleA = ''f1''" "fileId sampleC = ''f2''" "logs sampleC = [''started'']"
    by (simp_all add: sampleA_def sampleC_def)
  have n: "''f3'' \<notin> fileId ` set (samples ?st)"
    by (simp add: ids)
  have l: "1 < length (samples ?st)"
    by simp
  have i1: "fileId (samples ?st ! 1) \<noteq> ''f1''" and i2: "fileId (samples ?st ! 1) = ''f2''"
    by (simp_all add: ids)
  have r1: "updateSampleStatus ''f1'' S_error emptyStore = emptyStore \<and>
            addSampleLog ''f1'' ''line'' emptyStore = emptyStore"
    using registry_frame [of "''f1''" emptyStore S_error "''line''" JNull JNull JNull] e
    by blast
  have r2: "updateSampleStatus ''f3'' S_error ?st = ?st"
    using registry_frame [of "''f3''" ?st S_error "''line''" JNull JNull JNull] n
    by blast
  have r3: "samples (addSampleLog ''f1'' ''line'' ?st) ! 1 = samples ?st ! 1"
    using registry_frame [of "''f1''" ?st S_error "''line''" JNull JNull JNull] l i1
    by blast
  have r4: "samples (addSampleLog ''f2'' ''line'' ?st) ! 1 =
              (samples ?st ! 1)\<lparr>logs := logs (samples ?st ! 1) @ [''line'']\<rparr>"
    using registry_frame [of "''f2''" ?st S_error "''line''" JNull JNull JNull] l i2
    by blast
  show ?thesis
    using e n l i1 i2 r1 r2 r3 r4 by (simp add: ids)
qed

end
